theory Spec2Isabelle
  imports Main
begin

section \<open>Characters and strings\<close>

text \<open>
  A JavaScript string is modelled as a \<^typ>\<open>string\<close>, one \<^typ>\<open>char\<close> per code unit.
  The character classes below are the ASCII part of the classes the source's regular
  expressions and string methods use: \<open>[A-Z]\<close>, \<open>[a-z]\<close>, \<open>\d\<close>, \<open>\w\<close>, \<open>\s\<close>
  (which is also the set \<open>trim\<close> strips), and the ASCII case mappings of
  \<open>toLowerCase\<close> and \<open>toUpperCase\<close>. Every other character is taken to be
  a caseless symbol that is not white space, so the model computes what the source
  computes on ASCII text.
\<close>

definition is_upper :: "char \<Rightarrow> bool" where
  "is_upper c = (c \<in> set ''ABCDEFGHIJKLMNOPQRSTUVWXYZ'')"

definition is_lower :: "char \<Rightarrow> bool" where
  "is_lower c = (c \<in> set ''abcdefghijklmnopqrstuvwxyz'')"

definition is_digit :: "char \<Rightarrow> bool" where
  "is_digit c = (c \<in> set ''0123456789'')"

text \<open>The class \<open>\w\<close>, which decides the word boundaries \<open>\b\<close>.\<close>

definition is_word :: "char \<Rightarrow> bool" where
  "is_word c = (is_upper c \<or> is_lower c \<or> is_digit c \<or> c = CHR ''_'')"

text \<open>The class \<open>\s\<close>: tab, line feed, vertical tab, form feed, carriage return, space.\<close>

definition is_space :: "char \<Rightarrow> bool" where
  "is_space c = (c \<in> set [CHR 0x09, CHR 0x0A, CHR 0x0B, CHR 0x0C, CHR 0x0D, CHR '' ''])"

definition is_newline :: "char \<Rightarrow> bool" where
  "is_newline c = (c = CHR 0x0A)"

text \<open>The class \<open>[.!?]\<close>.\<close>

definition is_terminal :: "char \<Rightarrow> bool" where
  "is_terminal c = (c \<in> set ''.!?'')"

definition toLowerChar :: "char \<Rightarrow> char" where
  "toLowerChar c =
     (case map_of (zip ''ABCDEFGHIJKLMNOPQRSTUVWXYZ'' ''abcdefghijklmnopqrstuvwxyz'') c of
        Some l \<Rightarrow> l
      | None \<Rightarrow> c)"

definition toUpperChar :: "char \<Rightarrow> char" where
  "toUpperChar c =
     (case map_of (zip ''abcdefghijklmnopqrstuvwxyz'' ''ABCDEFGHIJKLMNOPQRSTUVWXYZ'') c of
        Some u \<Rightarrow> u
      | None \<Rightarrow> c)"

definition toLowerCase :: "string \<Rightarrow> string" where
  "toLowerCase s = map toLowerChar s"

text \<open>\<open>s.trim()\<close>.\<close>

definition js_trim :: "string \<Rightarrow> string" where
  "js_trim s = rev (dropWhile is_space (rev (dropWhile is_space s)))"

text \<open>
  \<open>s.replace(/X+/g, r)\<close> for a character class \<open>X\<close>: every maximal run of characters
  of the class is replaced by \<open>r\<close>.
\<close>

function replace_runs :: "(char \<Rightarrow> bool) \<Rightarrow> string \<Rightarrow> string \<Rightarrow> string" where
  "replace_runs p r [] = []"
| "replace_runs p r (c # cs) =
     (if p c then r @ replace_runs p r (dropWhile p cs) else c # replace_runs p r cs)"
  by pat_completeness auto
termination
  by (relation "measure (\<lambda>(p, r, s). length s)")
     (auto simp: le_imp_less_Suc length_dropWhile_le)

text \<open>
  \<open>s.split(/X+/)\<close> for a character class \<open>X\<close>: the pieces between the maximal runs,
  with an empty first piece when the string starts with a run, an empty last piece when
  it ends with one, and the single piece \<open>""\<close> for the empty string.
\<close>

function split_runs :: "(char \<Rightarrow> bool) \<Rightarrow> string \<Rightarrow> string list" where
  "split_runs p [] = [[]]"
| "split_runs p (c # cs) =
     (if p c then [] # split_runs p (dropWhile p cs)
      else (case split_runs p cs of
              [] \<Rightarrow> [[c]]
            | w # ws \<Rightarrow> (c # w) # ws))"
  by pat_completeness auto
termination
  by (relation "measure (\<lambda>(p, s). length s)")
     (auto simp: le_imp_less_Suc length_dropWhile_le)

text \<open>\<open>s.includes(t)\<close>: \<open>t\<close> occurs in \<open>s\<close> as a contiguous substring.\<close>

fun js_includes :: "string \<Rightarrow> string \<Rightarrow> bool" where
  "js_includes [] t = (t = [])"
| "js_includes (c # cs) t = (take (length t) (c # cs) = t \<or> js_includes cs t)"

text \<open>\<open>xs.join(sep)\<close>.\<close>

fun js_join :: "string \<Rightarrow> string list \<Rightarrow> string" where
  "js_join sep [] = []"
| "js_join sep [x] = x"
| "js_join sep (x # y # ys) = x @ sep @ js_join sep (y # ys)"

text \<open>
  A word boundary \<open>\b\<close>: exactly one of the character before the position (none at the
  start) and the character after it (none at the end) is a word character.
  \<open>prev\<close> says whether the previous character is one.
\<close>

definition word_boundary :: "bool \<Rightarrow> string \<Rightarrow> bool" where
  "word_boundary prev rest =
     (prev \<noteq> (case rest of [] \<Rightarrow> False | c # _ \<Rightarrow> is_word c))"

section \<open>The FAQ generator\<close>

record faq =
  question :: string
  answer :: string

text \<open>The constructor's stop-word set.\<close>

definition stopWords :: "string set" where
  "stopWords = set [
     ''a'', ''an'', ''the'', ''is'', ''are'', ''was'', ''were'', ''be'', ''been'', ''being'',
     ''have'', ''has'', ''had'', ''do'', ''does'', ''did'', ''will'', ''would'', ''could'',
     ''should'', ''may'', ''might'', ''must'', ''shall'', ''can'', ''need'', ''dare'',
     ''ought'', ''used'', ''to'', ''of'', ''in'', ''for'', ''on'', ''with'', ''at'', ''by'',
     ''from'', ''as'', ''into'', ''through'', ''during'', ''before'', ''after'', ''above'',
     ''below'', ''between'', ''under'', ''again'', ''further'', ''then'', ''once'', ''here'',
     ''there'', ''when'', ''where'', ''why'', ''how'', ''all'', ''each'', ''few'', ''more'',
     ''most'', ''other'', ''some'', ''such'', ''no'', ''nor'', ''not'', ''only'', ''own'',
     ''same'', ''so'', ''than'', ''too'', ''very'', ''just'', ''and'', ''but'', ''if'', ''or'',
     ''because'', ''until'', ''while'', ''this'', ''that'', ''these'', ''those'', ''i'', ''me'',
     ''my'', ''myself'', ''we'', ''our'', ''you'', ''your'', ''he'', ''him'', ''his'', ''she'',
     ''her'', ''it'', ''its'', ''they'', ''them'', ''their'', ''what'', ''which'', ''who'']"

subsection \<open>extractSentences\<close>

text \<open>The pieces before the length filter: newline runs to one space, split, trim.\<close>

definition sentence_pieces :: "string \<Rightarrow> string list" where
  "sentence_pieces text =
     map js_trim (split_runs is_terminal (replace_runs is_newline '' '' text))"

definition extractSentences :: "string \<Rightarrow> string list" where
  "extractSentences text = filter (\<lambda>s. length s > 20) (sentence_pieces text)"

subsection \<open>extractKeywords\<close>

text \<open>
  The tokens: the lower-cased text with every character outside \<open>[a-zA-Z0-9\s]\<close>
  replaced by a space, split on white-space runs, keeping the pieces longer than 3
  that are no stop words.
\<close>

definition keyword_tokens :: "string \<Rightarrow> string list" where
  "keyword_tokens text =
     filter (\<lambda>word. length word > 3 \<and> word \<notin> stopWords)
       (split_runs is_space
          (map (\<lambda>c. if is_lower c \<or> is_upper c \<or> is_digit c \<or> is_space c then c else CHR '' '')
             (toLowerCase text)))"

text \<open>
  The values \<open>wordCount\<close> holds. \<open>wordCount\<close> is a plain object, so a word that is
  not yet an own property is looked up on \<open>Object.prototype\<close>. The only property
  there whose name can be a token (lower-case letters and digits) is \<open>constructor\<close>,
  a function: it is truthy, \<open>+ 1\<close> concatenates, and the value stored is a string that
  no later \<open>+ 1\<close> turns into a number. \<open>NotNumber\<close> stands for such a string.
\<close>

datatype count = Count nat | NotNumber

definition inherited :: "string \<Rightarrow> bool" where
  "inherited word = (word = ''constructor'')"

text \<open>\<open>(wordCount[word] || 0) + 1\<close>, from the own property if there is one.\<close>

definition next_count :: "count option \<Rightarrow> string \<Rightarrow> count" where
  "next_count own word =
     (case own of
        Some (Count n) \<Rightarrow> Count (n + 1)
      | Some NotNumber \<Rightarrow> NotNumber
      | None \<Rightarrow> if inherited word then NotNumber else Count 1)"

text \<open>
  An object as the list of its own properties in creation order. Assigning to an
  existing key keeps its place; a new key goes last.
\<close>

fun assign :: "string \<Rightarrow> count \<Rightarrow> (string \<times> count) list \<Rightarrow> (string \<times> count) list" where
  "assign k v [] = [(k, v)]"
| "assign k v (p # ps) = (if fst p = k then (k, v) # ps else p # assign k v ps)"

definition count_word :: "(string \<times> count) list \<Rightarrow> string \<Rightarrow> (string \<times> count) list" where
  "count_word wordCount word = assign word (next_count (map_of wordCount word) word) wordCount"

definition count_words :: "string list \<Rightarrow> (string \<times> count) list" where
  "count_words ws = foldl count_word [] ws"

text \<open>
  \<open>Object.entries\<close> lists the keys that are array indices first, in ascending numeric
  order, then the other keys in creation order. An array index is the canonical
  decimal numeral of an integer from 0 to \<open>2^32 - 2\<close>.
\<close>

definition digit_value :: "char \<Rightarrow> int" where
  "digit_value c = (case map_of (zip ''0123456789'' [0..9]) c of Some d \<Rightarrow> d | None \<Rightarrow> 0)"

definition numeric_value :: "string \<Rightarrow> int" where
  "numeric_value s = foldl (\<lambda>a c. 10 * a + digit_value c) 0 s"

definition is_array_index :: "string \<Rightarrow> bool" where
  "is_array_index s =
     (s \<noteq> [] \<and> list_all is_digit s \<and> (s = ''0'' \<or> hd s \<noteq> CHR ''0'') \<and>
      numeric_value s \<le> 4294967294)"

definition object_entries :: "(string \<times> count) list \<Rightarrow> (string \<times> count) list" where
  "object_entries obj =
     sort_key (\<lambda>e. numeric_value (fst e)) (filter (\<lambda>e. is_array_index (fst e)) obj) @
     filter (\<lambda>e. \<not> is_array_index (fst e)) obj"

text \<open>
  The comparator \<open>(a, b) => b[1] - a[1]\<close>. The difference is \<open>NaN\<close> when a value is
  not a number, and \<open>sort\<close> reads a \<open>NaN\<close> result as 0.
\<close>

definition compare_entries :: "string \<times> count \<Rightarrow> string \<times> count \<Rightarrow> int" where
  "compare_entries a b =
     (case (snd a, snd b) of
        (Count m, Count n) \<Rightarrow> int n - int m
      | _ \<Rightarrow> 0)"

text \<open>
  \<open>Array.prototype.sort\<close> is stable: elements the comparator does not separate keep
  their order. It is modelled as the stable insertion sort. When the comparator is
  consistent every stable sort gives this result; when \<open>constructor\<close> is a token
  it is not, and the order the engine produces is implementation-defined.
\<close>

fun insert_entry :: "string \<times> count \<Rightarrow> (string \<times> count) list \<Rightarrow> (string \<times> count) list" where
  "insert_entry x [] = [x]"
| "insert_entry x (y # ys) =
     (if compare_entries x y \<le> 0 then x # y # ys else y # insert_entry x ys)"

definition sort_entries :: "(string \<times> count) list \<Rightarrow> (string \<times> count) list" where
  "sort_entries es = foldr insert_entry es []"

definition extractKeywords :: "string \<Rightarrow> string list" where
  "extractKeywords text =
     map fst (take 15 (sort_entries (object_entries (count_words (keyword_tokens text)))))"

subsection \<open>identifyTopics\<close>

text \<open>
  The capitalized-phrase pattern \<open>/\b[A-Z][a-z]+(?:\s+[A-Z][a-z]+)*\b/g\<close>, by the
  backtracking order of the matcher. \<open>word_lengths s\<close> lists the lengths of the
  prefixes of \<open>s\<close> that \<open>[A-Z][a-z]+\<close> matches, the longest first (the quantifier is
  greedy); \<open>space_lengths\<close> does the same for \<open>\s+\<close>.
\<close>

definition word_lengths :: "string \<Rightarrow> nat list" where
  "word_lengths s =
     (case s of
        [] \<Rightarrow> []
      | c # cs \<Rightarrow>
          if is_upper c then map Suc (rev [1..<Suc (length (takeWhile is_lower cs))]) else [])"

definition space_lengths :: "string \<Rightarrow> nat list" where
  "space_lengths s = rev [1..<Suc (length (takeWhile is_space s))]"

text \<open>
  The lengths \<open>(?:\s+[A-Z][a-z]+)*\<close> can consume at the front of \<open>s\<close>, in the order
  the matcher tries them: one more iteration first, no iteration last.
\<close>

function tail_lengths :: "string \<Rightarrow> nat list" where
  "tail_lengths [] = [0]"
| "tail_lengths (c # cs) =
     concat (map (\<lambda>k.
        concat (map (\<lambda>n. map (\<lambda>m. k + n + m) (tail_lengths (drop (k + n) (c # cs))))
          (word_lengths (drop k (c # cs)))))
       (space_lengths (c # cs))) @ [0]"
  by pat_completeness auto
termination
proof (relation "measure length")
  fix c :: char and cs :: string and k n :: nat
  assume "k \<in> set (space_lengths (c # cs))"
  then have "0 < k"
    by (auto simp: space_lengths_def)
  then show "(drop (k + n) (c # cs), c # cs) \<in> measure length"
    by simp
qed simp

text \<open>
  The match that starts at the front of \<open>s\<close>, if there is one: its length is the first
  candidate, in the matcher's order, that ends at a word boundary. The last character
  consumed is a lower-case letter, so a word character stands before that boundary.
\<close>

definition phrase_match :: "bool \<Rightarrow> string \<Rightarrow> nat option" where
  "phrase_match prev s =
     (if word_boundary prev s
      then find (\<lambda>e. word_boundary True (drop e s))
             (concat (map (\<lambda>n. map (\<lambda>m. n + m) (tail_lengths (drop n s))) (word_lengths s)))
      else None)"

text \<open>
  \<open>text.match(pattern)\<close> with the \<open>g\<close> flag: all matches from left to right, each
  search starting where the previous match ended. \<open>skip\<close> counts the characters of
  the current match still to pass; \<open>prev\<close> says whether the previous character is
  a word character.
\<close>

fun scan_phrases :: "nat \<Rightarrow> bool \<Rightarrow> string \<Rightarrow> string list" where
  "scan_phrases skip prev [] = []"
| "scan_phrases skip prev (c # cs) =
     (if skip > 0 then scan_phrases (skip - 1) (is_word c) cs
      else (case phrase_match prev (c # cs) of
              Some n \<Rightarrow> take n (c # cs) # scan_phrases (n - 1) (is_word c) cs
            | None \<Rightarrow> scan_phrases 0 (is_word c) cs))"

definition capitalized_matches :: "string \<Rightarrow> string list" where
  "capitalized_matches text = scan_phrases 0 False text"

text \<open>The first \<open>forEach\<close>: a match is pushed unless its lower-cased form is already a topic.\<close>

definition push_match :: "string list \<Rightarrow> string \<Rightarrow> string list" where
  "push_match topics m =
     (if length m > 3 \<and> toLowerCase m \<notin> set topics then topics @ [m] else topics)"

text \<open>The second \<open>forEach\<close>: a keyword is pushed unless some topic lower-cases to it.\<close>

definition push_keyword :: "string list \<Rightarrow> string \<Rightarrow> string list" where
  "push_keyword topics keyword =
     (if \<not> list_ex (\<lambda>t. toLowerCase t = keyword) topics then topics @ [keyword] else topics)"

definition identifyTopics :: "string \<Rightarrow> string list \<Rightarrow> string list" where
  "identifyTopics text keywords =
     take 8 (foldl push_keyword (foldl push_match [] (capitalized_matches text)) (take 5 keywords))"

subsection \<open>cleanAnswer\<close>

definition cleanAnswer :: "string \<Rightarrow> string" where
  "cleanAnswer text =
     (if text = [] then []
      else
        let cleaned = js_trim (replace_runs is_space '' '' text);
            cleaned = (case cleaned of [] \<Rightarrow> [] | c # cs \<Rightarrow> toUpperChar c # cs);
            cleaned = (if cleaned \<noteq> [] \<and> \<not> is_terminal (last cleaned)
                       then cleaned @ ''.'' else cleaned)
        in cleaned)"

subsection \<open>The category generators\<close>

text \<open>
  \<open>${topics[i]}\<close> in a template literal: the topic, or the text \<open>undefined\<close> when
  the list has no such element.
\<close>

definition interpolate :: "string list \<Rightarrow> nat \<Rightarrow> string" where
  "interpolate topics i = (if i < length topics then topics ! i else ''undefined'')"

text \<open>\<open>indicators.some(ind => sentence.toLowerCase().includes(ind))\<close>.\<close>

definition has_indicator :: "string list \<Rightarrow> string \<Rightarrow> bool" where
  "has_indicator indicators sentence =
     list_ex (\<lambda>ind. js_includes (toLowerCase sentence) ind) indicators"

text \<open>
  \<open>if (relevantSentence)\<close> and \<open>if (topic)\<close> test the result of \<open>find\<close>: it is
  \<open>undefined\<close> when nothing is found, and a found empty string is falsy as well.
\<close>

definition generateDefinitionFAQs :: "string list \<Rightarrow> string list \<Rightarrow> faq list" where
  "generateDefinitionFAQs sentences topics =
     concat (map (\<lambda>topic.
        (case find (\<lambda>s. js_includes (toLowerCase s) (toLowerCase topic)) sentences of
           None \<Rightarrow> []
         | Some relevantSentence \<Rightarrow>
             if relevantSentence \<noteq> []
             then [\<lparr>question = ''What is '' @ topic @ ''?'',
                    answer = cleanAnswer relevantSentence\<rparr>]
             else []))
       (take 3 topics))"

definition processIndicators :: "string list" where
  "processIndicators =
     [''step'', ''process'', ''method'', ''way'', ''approach'', ''procedure'', ''guide'',
      ''tutorial'', ''instruction'']"

text \<open>
  A regular expression of the form \<open>/\b(...)\b/i\<close> tested on a string: some position
  has a word boundary, one of the alternatives right after it, and a word boundary
  at its end. \<open>group_lengths s\<close> lists the lengths the group can consume at the
  front of \<open>s\<close>; every alternative here ends in a word character.
\<close>

definition matches_here :: "(string \<Rightarrow> nat list) \<Rightarrow> bool \<Rightarrow> string \<Rightarrow> bool" where
  "matches_here group_lengths prev s =
     (word_boundary prev s \<and>
      list_ex (\<lambda>n. word_boundary True (drop n s)) (group_lengths s))"

fun regex_search :: "(string \<Rightarrow> nat list) \<Rightarrow> bool \<Rightarrow> string \<Rightarrow> bool" where
  "regex_search group_lengths prev [] = matches_here group_lengths prev []"
| "regex_search group_lengths prev (c # cs) =
     (matches_here group_lengths prev (c # cs) \<or>
      regex_search group_lengths (is_word c) cs)"

text \<open>A literal alternative under the \<open>i\<close> flag: the letters are compared ignoring case.\<close>

definition literal_lengths :: "string list \<Rightarrow> string \<Rightarrow> nat list" where
  "literal_lengths alternatives s =
     map length (filter (\<lambda>w. toLowerCase (take (length w) s) = w) alternatives)"

text \<open>\<open>/\b(first|second|third|then|next|finally|step \d+)\b/i\<close>.\<close>

definition step_lengths :: "string \<Rightarrow> nat list" where
  "step_lengths s =
     literal_lengths [''first'', ''second'', ''third'', ''then'', ''next'', ''finally''] s @
     (if toLowerCase (take 5 s) = ''step ''
      then map (\<lambda>k. 5 + k) (rev [1..<Suc (length (takeWhile is_digit (drop 5 s)))])
      else [])"

definition stepPattern_test :: "string \<Rightarrow> bool" where
  "stepPattern_test s = regex_search step_lengths False s"

definition generateProcessFAQs :: "string list \<Rightarrow> string list \<Rightarrow> faq list" where
  "generateProcessFAQs sentences topics =
     (let faqs = concat (map (\<lambda>sentence.
            if has_indicator processIndicators sentence
            then (case find (\<lambda>t. js_includes (toLowerCase sentence) (toLowerCase t)) topics of
                    None \<Rightarrow> []
                  | Some topic \<Rightarrow>
                      if topic \<noteq> []
                      then [\<lparr>question = ''How does '' @ topic @ '' work?'',
                             answer = cleanAnswer sentence\<rparr>]
                      else [])
            else [])
          sentences);
          stepSentences = filter stepPattern_test sentences;
          faqs = (if length stepSentences > 0 \<and> length topics > 0
                  then faqs @ [\<lparr>question = ''How do I get started with '' @ interpolate topics 0 @ ''?'',
                                 answer = cleanAnswer (js_join ''. '' (take 3 stepSentences))\<rparr>]
                  else faqs)
      in take 2 faqs)"

definition featureIndicators :: "string list" where
  "featureIndicators =
     [''feature'', ''capability'', ''function'', ''option'', ''include'', ''provide'', ''offer'',
      ''support'', ''enable'', ''allow'']"

definition generateFeatureFAQs :: "string list \<Rightarrow> string list \<Rightarrow> faq list" where
  "generateFeatureFAQs sentences topics =
     (let featureSentences = filter (has_indicator featureIndicators) sentences
      in if length featureSentences > 0 \<and> length topics > 0
         then [\<lparr>question = ''What features does '' @ interpolate topics 0 @ '' offer?'',
                answer = cleanAnswer (js_join ''. '' (take 2 featureSentences))\<rparr>]
         else [])"

definition benefitIndicators :: "string list" where
  "benefitIndicators =
     [''benefit'', ''advantage'', ''improve'', ''help'', ''save'', ''increase'', ''reduce'',
      ''better'', ''efficient'', ''effective'']"

definition generateBenefitFAQs :: "string list \<Rightarrow> string list \<Rightarrow> faq list" where
  "generateBenefitFAQs sentences topics =
     (let benefitSentences = filter (has_indicator benefitIndicators) sentences
      in if length benefitSentences > 0 \<and> length topics > 0
         then [\<lparr>question = ''Why should I use '' @ interpolate topics 0 @ ''?'',
                answer = cleanAnswer (js_join ''. '' (take 2 benefitSentences))\<rparr>]
         else [])"

definition canIndicators :: "string list" where
  "canIndicators = [''can'', ''able'', ''possible'', ''support'', ''allow'']"

definition requireIndicators :: "string list" where
  "requireIndicators = [''require'', ''need'', ''must'', ''necessary'', ''prerequisite'']"

text \<open>\<open>/\b(find|locate|access|available|download)\b/i\<close>.\<close>

definition locationPattern_test :: "string \<Rightarrow> bool" where
  "locationPattern_test s =
     regex_search (literal_lengths [''find'', ''locate'', ''access'', ''available'', ''download''])
       False s"

text \<open>
  \<open>${topics[1] || topics[0]}\<close>: the second topic when there is one and it is not the
  empty string (both \<open>undefined\<close> and \<open>""\<close> are falsy), else the first.
\<close>

definition customize_subject :: "string list \<Rightarrow> string" where
  "customize_subject topics =
     (if 1 < length topics \<and> topics ! 1 \<noteq> [] then topics ! 1 else interpolate topics 0)"

definition generateTopicFAQs :: "string list \<Rightarrow> string list \<Rightarrow> faq list" where
  "generateTopicFAQs sentences topics =
     (let canSentences = filter (has_indicator canIndicators) sentences;
          faqs = (if length canSentences > 0 \<and> length topics > 1
                  then [\<lparr>question = ''Can I customize '' @ customize_subject topics @ ''?'',
                         answer = cleanAnswer (hd canSentences)\<rparr>]
                  else []);
          requireSentences = filter (has_indicator requireIndicators) sentences;
          faqs = (if length requireSentences > 0
                  then faqs @ [\<lparr>question = ''What are the requirements for '' @ interpolate topics 0 @ ''?'',
                                 answer = cleanAnswer (hd requireSentences)\<rparr>]
                  else faqs);
          locationSentences = filter locationPattern_test sentences;
          faqs = (if length locationSentences > 0 \<and> length topics > 0
                  then faqs @ [\<lparr>question = ''Where can I find more information about '' @
                                            interpolate topics 0 @ ''?'',
                                 answer = cleanAnswer (hd locationSentences)\<rparr>]
                  else faqs)
      in take 3 faqs)"

subsection \<open>removeDuplicates\<close>

text \<open>\<open>question.toLowerCase().replace(/[^a-z0-9]/g, '')\<close>.\<close>

definition normalizeQuestion :: "string \<Rightarrow> string" where
  "normalizeQuestion q = filter (\<lambda>c. is_lower c \<or> is_digit c) (toLowerCase q)"

text \<open>The filter with its \<open>seen\<close> set, which grows as the filter runs.\<close>

fun remove_seen :: "string set \<Rightarrow> faq list \<Rightarrow> faq list" where
  "remove_seen seen [] = []"
| "remove_seen seen (f # fs) =
     (let normalized = normalizeQuestion (question f)
      in if normalized \<in> seen then remove_seen seen fs
         else f # remove_seen (insert normalized seen) fs)"

definition removeDuplicates :: "faq list \<Rightarrow> faq list" where
  "removeDuplicates faqs = remove_seen {} faqs"

subsection \<open>generateFAQs\<close>

text \<open>The candidates of the five generators, in the order they are pushed.\<close>

definition candidates :: "string list \<Rightarrow> string list \<Rightarrow> faq list" where
  "candidates sentences topics =
     generateDefinitionFAQs sentences topics @
     generateProcessFAQs sentences topics @
     generateFeatureFAQs sentences topics @
     generateBenefitFAQs sentences topics @
     generateTopicFAQs sentences topics"

text \<open>The body of \<open>generateFAQs\<close> after its guard, for a string argument.\<close>

definition generate_from_text :: "string \<Rightarrow> faq list" where
  "generate_from_text text =
     (let sentences = extractSentences text;
          keywords = extractKeywords text;
          topics = identifyTopics text keywords;
          uniqueFAQs = removeDuplicates (candidates sentences topics)
      in take 10 uniqueFAQs)"

text \<open>
  The argument of \<open>generateFAQs\<close> can be any JavaScript value. Numbers are integers
  or \<open>NaN\<close> here (any other number is truthy and no string, like a non-zero integer);
  \<open>JObject\<close> stands for every object, array and function.
\<close>

datatype jsvalue =
  JUndefined | JNull | JBoolean bool | JNumber int | JNaN | JString string | JObject

datatype js_error = TypeError

definition truthy :: "jsvalue \<Rightarrow> bool" where
  "truthy v =
     (case v of
        JUndefined \<Rightarrow> False
      | JNull \<Rightarrow> False
      | JBoolean b \<Rightarrow> b
      | JNumber n \<Rightarrow> n \<noteq> 0
      | JNaN \<Rightarrow> False
      | JString s \<Rightarrow> s \<noteq> []
      | JObject \<Rightarrow> True)"

definition typeof :: "jsvalue \<Rightarrow> string" where
  "typeof v =
     (case v of
        JUndefined \<Rightarrow> ''undefined''
      | JNull \<Rightarrow> ''object''
      | JBoolean b \<Rightarrow> ''boolean''
      | JNumber n \<Rightarrow> ''number''
      | JNaN \<Rightarrow> ''number''
      | JString s \<Rightarrow> ''string''
      | JObject \<Rightarrow> ''object'')"

text \<open>
  \<open>text.trim()\<close> on a value: only a string has the method, the call throws a
  \<open>TypeError\<close> on anything else.
\<close>

definition call_trim :: "jsvalue \<Rightarrow> js_error + string" where
  "call_trim v = (case v of JString s \<Rightarrow> Inr (js_trim s) | _ \<Rightarrow> Inl TypeError)"

text \<open>
  The guard \<open>!text || typeof text !== 'string' || text.trim().length === 0\<close>, with the
  short-circuit evaluation of \<open>||\<close>: an operand is evaluated only when those before
  it are false.
\<close>

definition invalid_input :: "jsvalue \<Rightarrow> js_error + bool" where
  "invalid_input v =
     (if \<not> truthy v then Inr True
      else if typeof v \<noteq> ''string'' then Inr True
      else (case call_trim v of
              Inl e \<Rightarrow> Inl e
            | Inr trimmed \<Rightarrow> Inr (length trimmed = 0)))"

definition generateFAQs :: "jsvalue \<Rightarrow> js_error + faq list" where
  "generateFAQs v =
     (case invalid_input v of
        Inl e \<Rightarrow> Inl e
      | Inr True \<Rightarrow> Inr []
      | Inr False \<Rightarrow>
          (case v of
             JString text \<Rightarrow> Inr (generate_from_text text)
           | _ \<Rightarrow> Inl TypeError))"

section \<open>Notions the properties are stated with\<close>

text \<open>
  Deduplication as the spec states it: the entries of a list that no earlier entry
  shares a key with, in their order. It is compared with \<open>removeDuplicates\<close> below.
\<close>

definition first_occurrences :: "('a \<Rightarrow> 'k) \<Rightarrow> 'a list \<Rightarrow> 'a list" where
  "first_occurrences key xs =
     map (\<lambda>i. xs ! i)
       (filter (\<lambda>i. \<not> list_ex (\<lambda>j. key (xs ! j) = key (xs ! i)) [0..<i]) [0..<length xs])"

text \<open>
  The ranking of keywords. \<open>ws\<close> is the token list. A token precedes another in the
  key order of the word-count object when it is an array index and the other is not or
  has no smaller numeric value, or when neither is an array index and it occurs in the
  text before the other's first occurrence. \<open>a\<close> ranks before \<open>b\<close> when it is more
  frequent, or as frequent and earlier in the key order.
\<close>

definition key_precedes :: "string list \<Rightarrow> string \<Rightarrow> string \<Rightarrow> bool" where
  "key_precedes ws a b =
     (if is_array_index a
      then (if is_array_index b then numeric_value a \<le> numeric_value b else True)
      else (if is_array_index b then False else a \<in> set (takeWhile (\<lambda>w. w \<noteq> b) ws)))"

definition ranks_before :: "string list \<Rightarrow> string \<Rightarrow> string \<Rightarrow> bool" where
  "ranks_before ws a b =
     (count_list ws b < count_list ws a \<or>
      (count_list ws a = count_list ws b \<and> key_precedes ws a b))"

section \<open>Properties\<close>

subsection \<open>The guard and the empty sentence list\<close>

lemma js_trim_Nil: "js_trim [] = []"
  by (simp add: js_trim_def)

lemma generateFAQs_string:
  "generateFAQs (JString text) = Inr (if js_trim text = [] then [] else generate_from_text text)"
  by (cases "text = []")
     (simp_all add: generateFAQs_def invalid_input_def truthy_def typeof_def call_trim_def js_trim_Nil)

lemma generators_no_sentences:
  "generateDefinitionFAQs [] topics = []"
  "generateProcessFAQs [] topics = []"
  "generateFeatureFAQs [] topics = []"
  "generateBenefitFAQs [] topics = []"
  "generateTopicFAQs [] topics = []"
proof -
  have "concat (map (\<lambda>topic. []) (take 3 topics)) = ([] :: faq list)"
    by (induction "take 3 topics") simp_all
  then show "generateDefinitionFAQs [] topics = []"
    by (simp add: generateDefinitionFAQs_def)
  show "generateProcessFAQs [] topics = []"
    by (simp add: generateProcessFAQs_def)
  show "generateFeatureFAQs [] topics = []"
    by (simp add: generateFeatureFAQs_def)
  show "generateBenefitFAQs [] topics = []"
    by (simp add: generateBenefitFAQs_def)
  show "generateTopicFAQs [] topics = []"
    by (simp add: generateTopicFAQs_def)
qed

lemma candidates_no_sentences: "candidates [] topics = []"
  by (simp add: candidates_def generators_no_sentences)

text \<open>
  Claim C3. For an argument that is missing (\<open>undefined\<close>), that is not a string, or
  that is a string empty after trimming, \<open>generateFAQs\<close> returns the empty list; it
  does not throw: the result is an \<open>Inr\<close>, never the \<open>TypeError\<close> that a call of
  \<open>trim\<close> on a value without that method would raise.
\<close>

theorem invalid_input_returns_empty:
  assumes "v = JUndefined \<or> typeof v \<noteq> ''string'' \<or> (\<exists>s. v = JString s \<and> js_trim s = [])"
  shows "generateFAQs v = Inr []"
proof (cases v)
  case (JString s)
  with assms have "js_trim s = []"
    by (auto simp: typeof_def)
  with JString show ?thesis
    by (simp add: generateFAQs_string)
qed (simp_all add: generateFAQs_def invalid_input_def truthy_def typeof_def)

theorem invalid_input_returns_empty_witness:
  "generateFAQs JUndefined = Inr [] \<and>
   typeof (JNumber 42) \<noteq> ''string'' \<and> generateFAQs (JNumber 42) = Inr [] \<and>
   typeof JObject \<noteq> ''string'' \<and> generateFAQs JObject = Inr [] \<and>
   js_trim '' \<newline>  '' = [] \<and> generateFAQs (JString '' \<newline>  '') = Inr []"
proof -
  have n: "typeof (JNumber 42) \<noteq> ''string''" and ob: "typeof JObject \<noteq> ''string''"
    by (simp_all add: typeof_def)
  have t: "js_trim '' \<newline>  '' = []"
    by (simp add: js_trim_def is_space_def)
  show ?thesis
    using n ob t
      invalid_input_returns_empty [of JUndefined]
      invalid_input_returns_empty [of "JNumber 42"]
      invalid_input_returns_empty [of JObject]
      invalid_input_returns_empty [of "JString '' \<newline>  ''"]
    by simp
qed

text \<open>
  Claim C4. When no piece of the sentence segmentation is longer than 20 characters,
  \<open>generateFAQs\<close> returns the empty list, whatever topics and keywords the text
  has: each of the five generators emits nothing for the empty sentence list.
\<close>

theorem no_long_sentence_no_faqs:
  assumes "\<forall>p \<in> set (sentence_pieces text). length p \<le> 20"
  shows "generateFAQs (JString text) = Inr [] \<and>
         (\<forall>topics. generateDefinitionFAQs [] topics = [] \<and>
                   generateProcessFAQs [] topics = [] \<and>
                   generateFeatureFAQs [] topics = [] \<and>
                   generateBenefitFAQs [] topics = [] \<and>
                   generateTopicFAQs [] topics = [])"
proof -
  from assms have "extractSentences text = []"
    by (auto simp: extractSentences_def filter_empty_conv)
  then have "generate_from_text text = []"
    by (simp add: generate_from_text_def candidates_no_sentences removeDuplicates_def)
  then show ?thesis
    by (simp add: generateFAQs_string generators_no_sentences)
qed

theorem no_long_sentence_no_faqs_witness:
  "sentence_pieces ''Widgets help. Widgets save time!'' = [''Widgets help'', ''Widgets save time'', ''''] \<and>
   identifyTopics ''Widgets help. Widgets save time!'' (extractKeywords ''Widgets help. Widgets save time!'')
     = [''Widgets'', ''Widgets'', ''help'', ''save'', ''time''] \<and>
   generateFAQs (JString ''Widgets help. Widgets save time!'') = Inr []"
proof -
  have p: "sentence_pieces ''Widgets help. Widgets save time!'' = [''Widgets help'', ''Widgets save time'', '''']"
    by code_simp
  have t: "identifyTopics ''Widgets help. Widgets save time!'' (extractKeywords ''Widgets help. Widgets save time!'')
     = [''Widgets'', ''Widgets'', ''help'', ''save'', ''time'']"
    by code_simp
  have "\<forall>p \<in> set (sentence_pieces ''Widgets help. Widgets save time!''). length p \<le> 20"
    unfolding p by simp
  from no_long_sentence_no_faqs [OF this] p t show ?thesis
    by simp
qed

subsection \<open>The General generator\<close>

lemma find_Some_filter:
  assumes "find P xs = Some s"
  shows "filter P xs \<noteq> [] \<and> hd (filter P xs) = s"
  using assms by (induction xs) (auto split: if_splits)

text \<open>
  The requirements branch tests only \<open>requireSentences.length > 0\<close>; the other
  branches that interpolate \<open>topics[0]\<close> also test \<open>topics.length > 0\<close>. With an
  empty topic list it is the only branch that emits, and \<open>topics[0]\<close> is
  \<open>undefined\<close> there.
\<close>

lemma requirements_branch_unguarded:
  assumes "find (has_indicator requireIndicators) sentences = Some s"
  shows "generateTopicFAQs sentences [] =
           [\<lparr>question = ''What are the requirements for undefined?'', answer = cleanAnswer s\<rparr>]"
  using find_Some_filter [OF assms]
  by (simp add: generateTopicFAQs_def interpolate_def Let_def)

text \<open>
  Claim C9 fails on the code: for a text with a requirement sentence and no topic the
  requirements FAQ is emitted, but the template renders the missing topic as the text
  \<open>undefined\<close>. The claim says that the subject is empty and the question reads
  \<open>What are the requirements for ?\<close>.
\<close>

theorem requirements_question_undefined:
  "extractSentences ''You must do it so we can be in it now'' =
     [''You must do it so we can be in it now''] \<and>
   identifyTopics ''You must do it so we can be in it now''
     (extractKeywords ''You must do it so we can be in it now'') = [] \<and>
   generateTopicFAQs [''You must do it so we can be in it now''] [] =
     [\<lparr>question = ''What are the requirements for undefined?'',
       answer = ''You must do it so we can be in it now.''\<rparr>] \<and>
   generateFAQs (JString ''You must do it so we can be in it now'') = Inr
     [\<lparr>question = ''What are the requirements for undefined?'',
       answer = ''You must do it so we can be in it now.''\<rparr>] \<and>
   ''What are the requirements for undefined?'' \<noteq> ''What are the requirements for ?''"
proof -
  let ?t = "''You must do it so we can be in it now''"
  have t: "js_trim ?t \<noteq> []"
    by code_simp
  have s: "extractSentences ?t = [''You must do it so we can be in it now'']"
    by code_simp
  have k: "identifyTopics ?t (extractKeywords ?t) = []"
    by code_simp
  have g: "generateTopicFAQs [''You must do it so we can be in it now''] [] =
     [\<lparr>question = ''What are the requirements for undefined?'',
       answer = ''You must do it so we can be in it now.''\<rparr>]"
    by code_simp
  have c: "take 10 (removeDuplicates (candidates [''You must do it so we can be in it now''] [])) =
     [\<lparr>question = ''What are the requirements for undefined?'',
       answer = ''You must do it so we can be in it now.''\<rparr>]"
    by code_simp
  have "generateFAQs (JString ?t) = Inr
     [\<lparr>question = ''What are the requirements for undefined?'',
       answer = ''You must do it so we can be in it now.''\<rparr>]"
    using t by (simp add: generateFAQs_string generate_from_text_def s k c)
  with s k g show ?thesis
    by simp
qed

text \<open>
  Claim C8, as the code has it. When some sentence contains a can-indicator, the General
  generator emits the \<open>Can I customize\<close> FAQ first, answered by the first such
  sentence, cleaned, if and only if there are at least two topics. Its subject is the
  second topic, or the first when the second is the empty string. With fewer than two
  topics no \<open>Can I customize\<close> FAQ is emitted.
\<close>

theorem customize_needs_two_topics:
  assumes "find (has_indicator canIndicators) sentences = Some s"
  shows "(2 \<le> length topics \<longrightarrow>
            generateTopicFAQs sentences topics \<noteq> [] \<and>
            hd (generateTopicFAQs sentences topics) =
              \<lparr>question = ''Can I customize '' @
                            (if topics ! 1 \<noteq> [] then topics ! 1 else topics ! 0) @ ''?'',
               answer = cleanAnswer s\<rparr>) \<and>
         (length topics < 2 \<longrightarrow>
            (\<forall>f \<in> set (generateTopicFAQs sentences topics).
               \<forall>subject. question f \<noteq> ''Can I customize '' @ subject @ ''?''))"
proof (intro conjI impI)
  assume two: "2 \<le> length topics"
  then have sub: "customize_subject topics = (if topics ! 1 \<noteq> [] then topics ! 1 else topics ! 0)"
    by (cases topics) (auto simp: customize_subject_def interpolate_def)
  from two find_Some_filter [OF assms]
  show "generateTopicFAQs sentences topics \<noteq> []"
    by (simp add: generateTopicFAQs_def Let_def)
  from two find_Some_filter [OF assms]
  show "hd (generateTopicFAQs sentences topics) =
          \<lparr>question = ''Can I customize '' @
                        (if topics ! 1 \<noteq> [] then topics ! 1 else topics ! 0) @ ''?'',
           answer = cleanAnswer s\<rparr>"
    by (simp add: generateTopicFAQs_def Let_def sub)
next
  assume "length topics < 2"
  then show "\<forall>f \<in> set (generateTopicFAQs sentences topics).
               \<forall>subject. question f \<noteq> ''Can I customize '' @ subject @ ''?''"
    by (auto simp: generateTopicFAQs_def Let_def split: if_splits)
qed

text \<open>
  Claim C8 as stated fails: with a can-sentence and exactly one topic nothing is emitted.
\<close>

theorem customize_one_topic_counterexample:
  "has_indicator canIndicators ''You can customize Widgets easily'' \<and>
   generateTopicFAQs [''You can customize Widgets easily''] [''Widgets''] = []"
  by code_simp

theorem customize_needs_two_topics_witness:
  "find (has_indicator canIndicators) [''You can customize Widgets easily''] =
     Some ''You can customize Widgets easily'' \<and>
   hd (generateTopicFAQs [''You can customize Widgets easily''] [''Widgets'', ''easily'']) =
     \<lparr>question = ''Can I customize easily?'', answer = ''You can customize Widgets easily.''\<rparr> \<and>
   hd (generateTopicFAQs [''You can customize Widgets easily''] [''Widgets'', '''']) =
     \<lparr>question = ''Can I customize Widgets?'', answer = ''You can customize Widgets easily.''\<rparr> \<and>
   generateTopicFAQs [''You can customize Widgets easily''] [''Widgets''] = []"
proof -
  have f: "find (has_indicator canIndicators) [''You can customize Widgets easily''] =
     Some ''You can customize Widgets easily''"
    by code_simp
  have c: "cleanAnswer ''You can customize Widgets easily'' = ''You can customize Widgets easily.''"
    by code_simp
  have one: "generateTopicFAQs [''You can customize Widgets easily''] [''Widgets''] = []"
    by code_simp
  from customize_needs_two_topics [OF f, of "[''Widgets'', ''easily'']"]
       customize_needs_two_topics [OF f, of "[''Widgets'', '''']"] f c one
  show ?thesis
    by simp
qed

subsection \<open>Deduplication and the limit\<close>

lemma remove_seen_snoc:
  "remove_seen seen (fs @ [f]) =
     remove_seen seen fs @
       (if normalizeQuestion (question f) \<in> seen \<union> (\<lambda>g. normalizeQuestion (question g)) ` set fs then [] else [f])"
  by (induction fs arbitrary: seen) (auto simp: Let_def)

lemma first_occurrences_snoc:
  "first_occurrences key (xs @ [x]) =
     first_occurrences key xs @ (if key x \<in> key ` set xs then [] else [x])"
proof -
  have old: "\<not> list_ex (\<lambda>j. key ((xs @ [x]) ! j) = key ((xs @ [x]) ! i)) [0..<i] \<longleftrightarrow>
             \<not> list_ex (\<lambda>j. key (xs ! j) = key (xs ! i)) [0..<i]"
    if "i < length xs" for i
    using that by (auto simp: list_ex_iff nth_append)
  have new: "list_ex (\<lambda>j. key ((xs @ [x]) ! j) = key x) [0..<length xs] \<longleftrightarrow> key x \<in> key ` set xs"
  proof
    assume "list_ex (\<lambda>j. key ((xs @ [x]) ! j) = key x) [0..<length xs]"
    then obtain j where "j < length xs" and "key (xs ! j) = key x"
      by (auto simp: list_ex_iff nth_append)
    then show "key x \<in> key ` set xs"
      by (metis imageI nth_mem)
  next
    assume "key x \<in> key ` set xs"
    then obtain j where "j < length xs" and "key (xs ! j) = key x"
      by (auto simp: in_set_conv_nth)
    then show "list_ex (\<lambda>j. key ((xs @ [x]) ! j) = key x) [0..<length xs]"
      by (auto simp: list_ex_iff nth_append)
  qed
  have f1: "filter (\<lambda>i. \<not> list_ex (\<lambda>j. key ((xs @ [x]) ! j) = key ((xs @ [x]) ! i)) [0..<i]) [0..<length xs] =
        filter (\<lambda>i. \<not> list_ex (\<lambda>j. key (xs ! j) = key (xs ! i)) [0..<i]) [0..<length xs]"
    by (rule filter_cong) (simp_all add: old)
  have m1: "map (\<lambda>i. (xs @ [x]) ! i)
              (filter (\<lambda>i. \<not> list_ex (\<lambda>j. key (xs ! j) = key (xs ! i)) [0..<i]) [0..<length xs]) =
            map (\<lambda>i. xs ! i)
              (filter (\<lambda>i. \<not> list_ex (\<lambda>j. key (xs ! j) = key (xs ! i)) [0..<i]) [0..<length xs])"
    by (rule map_cong) (auto simp: nth_append)
  show ?thesis
    unfolding first_occurrences_def
    by (simp add: f1 m1 new)
qed

lemma removeDuplicates_first_occurrences:
  "removeDuplicates faqs = first_occurrences (\<lambda>f. normalizeQuestion (question f)) faqs"
proof (induction faqs rule: rev_induct)
  case Nil
  show ?case by (simp add: removeDuplicates_def first_occurrences_def)
next
  case (snoc f fs)
  then show ?case
    by (simp add: removeDuplicates_def remove_seen_snoc first_occurrences_snoc)
qed

lemma remove_seen_keys:
  "distinct (map (\<lambda>f. normalizeQuestion (question f)) (remove_seen seen fs)) \<and>
   (\<forall>f \<in> set (remove_seen seen fs). normalizeQuestion (question f) \<notin> seen)"
proof (induction fs arbitrary: seen)
  case Nil
  show ?case by simp
next
  case (Cons a fs)
  show ?case
  proof (cases "normalizeQuestion (question a) \<in> seen")
    case True
    with Cons.IH [of seen] show ?thesis
      by (simp add: Let_def)
  next
    case False
    from Cons.IH [of "insert (normalizeQuestion (question a)) seen"]
    have "distinct (map (\<lambda>f. normalizeQuestion (question f))
            (remove_seen (insert (normalizeQuestion (question a)) seen) fs))"
      and "\<forall>f \<in> set (remove_seen (insert (normalizeQuestion (question a)) seen) fs).
             normalizeQuestion (question f) \<noteq> normalizeQuestion (question a) \<and>
             normalizeQuestion (question f) \<notin> seen"
      by simp_all
    with False show ?thesis
      by (auto simp: Let_def)
  qed
qed

lemma set_remove_seen: "set (remove_seen seen fs) \<subseteq> set fs"
  by (induction fs arbitrary: seen) (auto simp: Let_def)

text \<open>
  Claim C1. For a text that is not empty after trimming, \<open>generateFAQs\<close> returns a
  list of at most 10 FAQs, no two of which share a normalized question key. The list is
  the first 10 of the deduplicated candidates, where deduplication keeps, of the
  candidates in generation order (Definition, Process, Feature, Benefit, General),
  exactly those that no earlier candidate shares its key with.
\<close>

theorem generateFAQs_deduplicated_limited:
  assumes "js_trim text \<noteq> []"
  shows "let sentences = extractSentences text;
             topics = identifyTopics text (extractKeywords text)
         in \<exists>fs. generateFAQs (JString text) = Inr fs \<and>
                 length fs \<le> 10 \<and>
                 distinct (map (\<lambda>f. normalizeQuestion (question f)) fs) \<and>
                 fs = take 10 (first_occurrences (\<lambda>f. normalizeQuestion (question f))
                        (generateDefinitionFAQs sentences topics @
                         generateProcessFAQs sentences topics @
                         generateFeatureFAQs sentences topics @
                         generateBenefitFAQs sentences topics @
                         generateTopicFAQs sentences topics))"
proof -
  define cs where
    "cs = candidates (extractSentences text) (identifyTopics text (extractKeywords text))"
  have run: "generateFAQs (JString text) = Inr (take 10 (removeDuplicates cs))"
    using assms by (simp add: generateFAQs_string generate_from_text_def cs_def)
  have "distinct (map (\<lambda>f. normalizeQuestion (question f)) (removeDuplicates cs))"
    using remove_seen_keys [of "{}" cs] by (simp add: removeDuplicates_def)
  then have "distinct (map (\<lambda>f. normalizeQuestion (question f)) (take 10 (removeDuplicates cs)))"
    by (simp add: take_map [symmetric] distinct_take del: take_map)
  with run show ?thesis
    by (simp add: removeDuplicates_first_occurrences cs_def candidates_def)
qed

theorem generateFAQs_deduplicated_limited_witness:
  "js_trim ''Widgets and Widgets help you daily'' \<noteq> [] \<and>
   map question
     (candidates (extractSentences ''Widgets and Widgets help you daily'')
        (identifyTopics ''Widgets and Widgets help you daily''
           (extractKeywords ''Widgets and Widgets help you daily''))) =
     [''What is Widgets?'', ''What is Widgets?'', ''What is help?'', ''Why should I use Widgets?''] \<and>
   (\<exists>fs. generateFAQs (JString ''Widgets and Widgets help you daily'') = Inr fs \<and>
         map question fs = [''What is Widgets?'', ''What is help?'', ''Why should I use Widgets?''])"
proof -
  let ?t = "''Widgets and Widgets help you daily''"
  have t: "js_trim ?t \<noteq> []"
    by code_simp
  have s: "extractSentences ?t = [''Widgets and Widgets help you daily'']"
    by code_simp
  have k: "identifyTopics ?t (extractKeywords ?t) = [''Widgets'', ''Widgets'', ''help'', ''daily'']"
    by code_simp
  have c: "candidates [''Widgets and Widgets help you daily''] [''Widgets'', ''Widgets'', ''help'', ''daily''] =
      [\<lparr>question = ''What is Widgets?'', answer = ''Widgets and Widgets help you daily.''\<rparr>,
       \<lparr>question = ''What is Widgets?'', answer = ''Widgets and Widgets help you daily.''\<rparr>,
       \<lparr>question = ''What is help?'', answer = ''Widgets and Widgets help you daily.''\<rparr>,
       \<lparr>question = ''Why should I use Widgets?'', answer = ''Widgets and Widgets help you daily.''\<rparr>]"
    by code_simp
  have f: "take 10 (first_occurrences (\<lambda>f. normalizeQuestion (question f))
      [\<lparr>question = ''What is Widgets?'', answer = ''Widgets and Widgets help you daily.''\<rparr>,
       \<lparr>question = ''What is Widgets?'', answer = ''Widgets and Widgets help you daily.''\<rparr>,
       \<lparr>question = ''What is help?'', answer = ''Widgets and Widgets help you daily.''\<rparr>,
       \<lparr>question = ''Why should I use Widgets?'', answer = ''Widgets and Widgets help you daily.''\<rparr>]) =
      [\<lparr>question = ''What is Widgets?'', answer = ''Widgets and Widgets help you daily.''\<rparr>,
       \<lparr>question = ''What is help?'', answer = ''Widgets and Widgets help you daily.''\<rparr>,
       \<lparr>question = ''Why should I use Widgets?'', answer = ''Widgets and Widgets help you daily.''\<rparr>]"
    by code_simp
  from generateFAQs_deduplicated_limited [OF t]
  have "generateFAQs (JString ?t) = Inr
      [\<lparr>question = ''What is Widgets?'', answer = ''Widgets and Widgets help you daily.''\<rparr>,
       \<lparr>question = ''What is help?'', answer = ''Widgets and Widgets help you daily.''\<rparr>,
       \<lparr>question = ''Why should I use Widgets?'', answer = ''Widgets and Widgets help you daily.''\<rparr>]"
    unfolding Let_def s k using c f by (simp add: candidates_def)
  with t s k c show ?thesis
    by simp
qed

subsection \<open>Answers\<close>

lemma dropWhile_keeps: "x \<in> set xs \<Longrightarrow> \<not> P x \<Longrightarrow> x \<in> set (dropWhile P xs)"
  by (induction xs) auto

lemma last_dropWhile_rev:
  assumes "dropWhile P (rev xs) \<noteq> []"
  shows "last (dropWhile P (rev xs)) = hd xs"
proof -
  have "rev xs = takeWhile P (rev xs) @ dropWhile P (rev xs)"
    by simp
  with assms have "last (rev xs) = last (dropWhile P (rev xs))"
    by (metis last_appendR)
  moreover from assms have "xs \<noteq> []"
    by auto
  ultimately show ?thesis
    by (simp add: last_rev)
qed

lemma js_trim_hd:
  assumes "js_trim s \<noteq> []"
  shows "\<not> is_space (hd (js_trim s))"
proof -
  let ?d = "dropWhile is_space s"
  from assms have ne: "dropWhile is_space (rev ?d) \<noteq> []"
    by (simp add: js_trim_def)
  then have "rev ?d \<noteq> []"
    by (metis dropWhile.simps(1))
  then have "?d \<noteq> []"
    by simp
  then have "\<not> is_space (hd ?d)"
    by (rule hd_dropWhile)
  moreover have "hd (js_trim s) = hd ?d"
    using ne by (simp add: js_trim_def hd_rev last_dropWhile_rev)
  ultimately show ?thesis
    by simp
qed

lemma js_trim_keeps:
  assumes "x \<in> set s" and "\<not> is_space x"
  shows "x \<in> set (js_trim s)"
  using assms by (simp add: js_trim_def dropWhile_keeps)

lemma replace_runs_keeps:
  "x \<in> set s \<Longrightarrow> \<not> p x \<Longrightarrow> x \<in> set (replace_runs p r s)"
  by (induction p r s rule: replace_runs.induct) (auto simp: dropWhile_keeps)

lemma toUpperChar_not_lower: "\<not> is_lower (toUpperChar c)"
proof (cases "is_lower c")
  case True
  then show ?thesis
    by (auto simp: is_lower_def toUpperChar_def)
next
  case False
  then have "map_of (zip ''abcdefghijklmnopqrstuvwxyz'' ''ABCDEFGHIJKLMNOPQRSTUVWXYZ'') c = None"
    by (simp add: is_lower_def)
  with False show ?thesis
    by (simp add: toUpperChar_def)
qed

text \<open>A string with a character that is not white space is cleaned to a proper answer.\<close>

lemma cleanAnswer_proper:
  assumes "\<exists>c \<in> set s. \<not> is_space c"
  shows "cleanAnswer s \<noteq> [] \<and> is_terminal (last (cleanAnswer s)) \<and>
         \<not> is_lower (hd (cleanAnswer s))"
proof -
  let ?t = "js_trim (replace_runs is_space '' '' s)"
  from assms obtain c where "c \<in> set s" and "\<not> is_space c"
    by blast
  then have "c \<in> set ?t"
    by (simp add: js_trim_keeps replace_runs_keeps)
  then obtain a as where t: "?t = a # as"
    by (cases ?t) auto
  from assms have "s \<noteq> []"
    by auto
  then have "cleanAnswer s =
      (if is_terminal (last (toUpperChar a # as)) then toUpperChar a # as
       else (toUpperChar a # as) @ ''.'')"
    by (simp add: cleanAnswer_def t Let_def)
  then show ?thesis
    by (auto simp: toUpperChar_not_lower is_terminal_def)
qed

lemma extractSentences_ink:
  assumes "s \<in> set (extractSentences text)"
  shows "\<exists>c \<in> set s. \<not> is_space c"
proof -
  from assms obtain p where s: "s = js_trim p" and "length s > 20"
    by (auto simp: extractSentences_def sentence_pieces_def)
  then have "js_trim p \<noteq> []"
    by auto
  then have "\<not> is_space (hd (js_trim p))" and "hd (js_trim p) \<in> set (js_trim p)"
    by (simp_all add: js_trim_hd)
  with s show ?thesis
    by blast
qed

lemma js_join_ink:
  assumes "xs \<noteq> []" and "\<exists>c \<in> set (hd xs). \<not> is_space c"
  shows "\<exists>c \<in> set (js_join sep xs). \<not> is_space c"
proof (cases xs)
  case Nil
  with assms show ?thesis by simp
next
  case (Cons x ys)
  with assms show ?thesis
    by (cases ys) auto
qed

lemma find_Some_set: "find P xs = Some x \<Longrightarrow> x \<in> set xs"
  by (induction xs) (auto split: if_splits)

lemma joined_sentences_ink:
  assumes "\<forall>s \<in> set sentences. \<exists>c \<in> set s. \<not> is_space c"
    and "filter P sentences \<noteq> []"
  shows "\<exists>c \<in> set (js_join sep (take (Suc n) (filter P sentences))). \<not> is_space c"
proof -
  from assms(2) have "take (Suc n) (filter P sentences) \<noteq> []"
    and "hd (take (Suc n) (filter P sentences)) \<in> set sentences"
    by (cases "filter P sentences"; force simp: filter_eq_Cons_iff)+
  with assms(1) show ?thesis
    by (intro js_join_ink) auto
qed

text \<open>
  Every candidate's answer is the cleaned form of a string that is not all white
  space, whatever the topics are.
\<close>

lemma candidates_answers:
  assumes ink: "\<forall>s \<in> set sentences. \<exists>c \<in> set s. \<not> is_space c"
    and f: "f \<in> set (candidates sentences topics)"
  shows "\<exists>s. (\<exists>c \<in> set s. \<not> is_space c) \<and> answer f = cleanAnswer s"
proof -
  have hd_ink: "\<exists>c \<in> set (hd (filter P sentences)). \<not> is_space c"
    if "filter P sentences \<noteq> []" for P
  proof -
    from that have "hd (filter P sentences) \<in> set sentences"
      by (cases "filter P sentences") (force simp: filter_eq_Cons_iff)+
    with ink show ?thesis by blast
  qed
  from f consider
      (d) "f \<in> set (generateDefinitionFAQs sentences topics)"
    | (p) "f \<in> set (generateProcessFAQs sentences topics)"
    | (e) "f \<in> set (generateFeatureFAQs sentences topics)"
    | (b) "f \<in> set (generateBenefitFAQs sentences topics)"
    | (t) "f \<in> set (generateTopicFAQs sentences topics)"
    by (auto simp: candidates_def)
  then show ?thesis
  proof cases
    case d
    then obtain s where "s \<in> set sentences" and "answer f = cleanAnswer s"
      by (auto simp: generateDefinitionFAQs_def split: option.splits if_splits
               dest: find_Some_set [OF sym])
    with ink show ?thesis by blast
  next
    case p
    then have "f \<in> set (concat (map (\<lambda>sentence.
            if has_indicator processIndicators sentence
            then (case find (\<lambda>t. js_includes (toLowerCase sentence) (toLowerCase t)) topics of
                    None \<Rightarrow> []
                  | Some topic \<Rightarrow>
                      if topic \<noteq> []
                      then [\<lparr>question = ''How does '' @ topic @ '' work?'',
                             answer = cleanAnswer sentence\<rparr>]
                      else [])
            else [])
          sentences)) \<or>
        (filter stepPattern_test sentences \<noteq> [] \<and>
         answer f = cleanAnswer (js_join ''. '' (take 3 (filter stepPattern_test sentences))))"
      by (auto simp: generateProcessFAQs_def Let_def split: if_splits dest!: in_set_takeD)
    then show ?thesis
    proof
      assume "f \<in> set (concat (map (\<lambda>sentence.
            if has_indicator processIndicators sentence
            then (case find (\<lambda>t. js_includes (toLowerCase sentence) (toLowerCase t)) topics of
                    None \<Rightarrow> []
                  | Some topic \<Rightarrow>
                      if topic \<noteq> []
                      then [\<lparr>question = ''How does '' @ topic @ '' work?'',
                             answer = cleanAnswer sentence\<rparr>]
                      else [])
            else [])
          sentences))"
      then obtain s where "s \<in> set sentences" and "answer f = cleanAnswer s"
        by (auto split: option.splits if_splits)
      with ink show ?thesis by blast
    next
      assume "filter stepPattern_test sentences \<noteq> [] \<and>
         answer f = cleanAnswer (js_join ''. '' (take 3 (filter stepPattern_test sentences)))"
      with joined_sentences_ink [OF ink, of stepPattern_test "''. ''" 2] show ?thesis
        by (auto simp: numeral_3_eq_3)
    qed
  next
    case e
    then have "filter (has_indicator featureIndicators) sentences \<noteq> []"
      and "answer f = cleanAnswer (js_join ''. '' (take 2 (filter (has_indicator featureIndicators) sentences)))"
      by (auto simp: generateFeatureFAQs_def Let_def split: if_splits)
    with joined_sentences_ink [OF ink, of "has_indicator featureIndicators" "''. ''" 1] show ?thesis
      by (auto simp: numeral_2_eq_2)
  next
    case b
    then have "filter (has_indicator benefitIndicators) sentences \<noteq> []"
      and "answer f = cleanAnswer (js_join ''. '' (take 2 (filter (has_indicator benefitIndicators) sentences)))"
      by (auto simp: generateBenefitFAQs_def Let_def split: if_splits)
    with joined_sentences_ink [OF ink, of "has_indicator benefitIndicators" "''. ''" 1] show ?thesis
      by (auto simp: numeral_2_eq_2)
  next
    case t
    then have "(filter (has_indicator canIndicators) sentences \<noteq> [] \<and>
                answer f = cleanAnswer (hd (filter (has_indicator canIndicators) sentences))) \<or>
               (filter (has_indicator requireIndicators) sentences \<noteq> [] \<and>
                answer f = cleanAnswer (hd (filter (has_indicator requireIndicators) sentences))) \<or>
               (filter locationPattern_test sentences \<noteq> [] \<and>
                answer f = cleanAnswer (hd (filter locationPattern_test sentences)))"
      by (auto simp: generateTopicFAQs_def Let_def split: if_splits dest!: in_set_takeD)
    with hd_ink show ?thesis
      by blast
  qed
qed

lemma generate_from_text_answers:
  assumes "f \<in> set (generate_from_text text)"
  shows "\<exists>s. (\<exists>c \<in> set s. \<not> is_space c) \<and> answer f = cleanAnswer s"
proof -
  from assms have "f \<in> set (candidates (extractSentences text)
                        (identifyTopics text (extractKeywords text)))"
    using set_remove_seen [of "{}"]
    by (auto simp: generate_from_text_def removeDuplicates_def Let_def dest!: in_set_takeD)
  moreover have "\<forall>s \<in> set (extractSentences text). \<exists>c \<in> set s. \<not> is_space c"
    by (simp add: extractSentences_ink)
  ultimately show ?thesis
    by (rule candidates_answers [rotated])
qed

lemma generateFAQs_answers:
  assumes "generateFAQs (JString text) = Inr fs" and "f \<in> set fs"
  shows "\<exists>s. (\<exists>c \<in> set s. \<not> is_space c) \<and> answer f = cleanAnswer s"
proof -
  from assms have "f \<in> set (generate_from_text text)"
    by (auto simp: generateFAQs_string split: if_splits)
  then show ?thesis
    by (rule generate_from_text_answers)
qed

text \<open>Two texts evaluated stage by stage.\<close>

lemma example_daily:
  "generateFAQs (JString ''Widgets and Widgets help you daily'') = Inr
     [\<lparr>question = ''What is Widgets?'', answer = ''Widgets and Widgets help you daily.''\<rparr>,
      \<lparr>question = ''What is help?'', answer = ''Widgets and Widgets help you daily.''\<rparr>,
      \<lparr>question = ''Why should I use Widgets?'', answer = ''Widgets and Widgets help you daily.''\<rparr>]"
proof -
  let ?t = "''Widgets and Widgets help you daily''"
  have t: "js_trim ?t \<noteq> []"
    by code_simp
  have s: "extractSentences ?t = [''Widgets and Widgets help you daily'']"
    by code_simp
  have k: "identifyTopics ?t (extractKeywords ?t) = [''Widgets'', ''Widgets'', ''help'', ''daily'']"
    by code_simp
  have c: "take 10 (removeDuplicates
      (candidates [''Widgets and Widgets help you daily''] [''Widgets'', ''Widgets'', ''help'', ''daily''])) =
      [\<lparr>question = ''What is Widgets?'', answer = ''Widgets and Widgets help you daily.''\<rparr>,
       \<lparr>question = ''What is help?'', answer = ''Widgets and Widgets help you daily.''\<rparr>,
       \<lparr>question = ''Why should I use Widgets?'', answer = ''Widgets and Widgets help you daily.''\<rparr>]"
    by code_simp
  show ?thesis
    using t by (simp add: generateFAQs_string generate_from_text_def s k c)
qed

lemma example_digits:
  "generateFAQs (JString ''42 widgets require careful handling today.'') = Inr
     [\<lparr>question = ''What is widgets?'', answer = ''42 widgets require careful handling today.''\<rparr>,
      \<lparr>question = ''What is require?'', answer = ''42 widgets require careful handling today.''\<rparr>,
      \<lparr>question = ''What is careful?'', answer = ''42 widgets require careful handling today.''\<rparr>,
      \<lparr>question = ''What are the requirements for widgets?'',
        answer = ''42 widgets require careful handling today.''\<rparr>]"
proof -
  let ?t = "''42 widgets require careful handling today.''"
  have t: "js_trim ?t \<noteq> []"
    by code_simp
  have s: "extractSentences ?t = [''42 widgets require careful handling today'']"
    by code_simp
  have k: "identifyTopics ?t (extractKeywords ?t) =
             [''widgets'', ''require'', ''careful'', ''handling'', ''today'']"
    by code_simp
  have c: "take 10 (removeDuplicates
      (candidates [''42 widgets require careful handling today'']
         [''widgets'', ''require'', ''careful'', ''handling'', ''today''])) =
     [\<lparr>question = ''What is widgets?'', answer = ''42 widgets require careful handling today.''\<rparr>,
      \<lparr>question = ''What is require?'', answer = ''42 widgets require careful handling today.''\<rparr>,
      \<lparr>question = ''What is careful?'', answer = ''42 widgets require careful handling today.''\<rparr>,
      \<lparr>question = ''What are the requirements for widgets?'',
        answer = ''42 widgets require careful handling today.''\<rparr>]"
    by code_simp
  show ?thesis
    using t by (simp add: generateFAQs_string generate_from_text_def s k c)
qed

text \<open>
  Claim C10. Every FAQ that \<open>generateFAQs\<close> returns has a non-empty answer: an
  answer is the cleaned form of an extracted sentence, or of extracted sentences joined,
  and an extracted sentence is trimmed and longer than 20 characters, so it has a
  character that is not white space.
\<close>

theorem answers_never_empty:
  assumes "generateFAQs (JString text) = Inr fs"
  shows "\<forall>f \<in> set fs. answer f \<noteq> []"
proof
  fix f assume "f \<in> set fs"
  with assms obtain s where "\<exists>c \<in> set s. \<not> is_space c" and "answer f = cleanAnswer s"
    using generateFAQs_answers by blast
  then show "answer f \<noteq> []"
    by (simp add: cleanAnswer_proper)
qed

theorem answers_never_empty_witness:
  "generateFAQs (JString ''Widgets and Widgets help you daily'') = Inr
     [\<lparr>question = ''What is Widgets?'', answer = ''Widgets and Widgets help you daily.''\<rparr>,
      \<lparr>question = ''What is help?'', answer = ''Widgets and Widgets help you daily.''\<rparr>,
      \<lparr>question = ''Why should I use Widgets?'', answer = ''Widgets and Widgets help you daily.''\<rparr>] \<and>
   list_all (\<lambda>f. answer f \<noteq> [])
     [\<lparr>question = ''What is Widgets?'', answer = ''Widgets and Widgets help you daily.''\<rparr>,
      \<lparr>question = ''What is help?'', answer = ''Widgets and Widgets help you daily.''\<rparr>,
      \<lparr>question = ''Why should I use Widgets?'', answer = ''Widgets and Widgets help you daily.''\<rparr>]"
  using answers_never_empty [OF example_daily] example_daily
  by (simp add: list_all_iff)

text \<open>
  Claim C2, as the code has it. Every answer that \<open>generateFAQs\<close> returns has passed
  through the cleaner, is not empty, ends with \<open>.\<close>, \<open>!\<close> or \<open>?\<close>, and begins with
  the upper-cased first character of the cleaned text: never a lower-case letter, but a
  digit or a symbol where the sentence begins with one. The cleaner maps the empty
  string to the empty string.
\<close>

theorem answers_punctuated:
  assumes "generateFAQs (JString text) = Inr fs"
  shows "(\<forall>f \<in> set fs.
            (\<exists>s. answer f = cleanAnswer s) \<and> answer f \<noteq> [] \<and>
            is_terminal (last (answer f)) \<and> \<not> is_lower (hd (answer f))) \<and>
         cleanAnswer [] = []"
proof (intro conjI ballI)
  fix f assume "f \<in> set fs"
  with assms obtain s where s: "\<exists>c \<in> set s. \<not> is_space c" and a: "answer f = cleanAnswer s"
    using generateFAQs_answers by blast
  from a show "\<exists>s. answer f = cleanAnswer s" ..
  from cleanAnswer_proper [OF s] a
  show "answer f \<noteq> []" and "is_terminal (last (answer f))" and "\<not> is_lower (hd (answer f))"
    by simp_all
next
  show "cleanAnswer [] = []"
    by (simp add: cleanAnswer_def)
qed

text \<open>
  Claim C2 as stated fails: an answer whose sentence begins with a digit does not begin
  with an upper-case character.
\<close>

theorem answer_starts_with_digit_counterexample:
  "generateFAQs (JString ''42 widgets require careful handling today.'') = Inr
     [\<lparr>question = ''What is widgets?'', answer = ''42 widgets require careful handling today.''\<rparr>,
      \<lparr>question = ''What is require?'', answer = ''42 widgets require careful handling today.''\<rparr>,
      \<lparr>question = ''What is careful?'', answer = ''42 widgets require careful handling today.''\<rparr>,
      \<lparr>question = ''What are the requirements for widgets?'',
        answer = ''42 widgets require careful handling today.''\<rparr>] \<and>
   \<not> is_upper (hd ''42 widgets require careful handling today.'')"
  using example_digits by (simp add: is_upper_def)

theorem answers_punctuated_witness:
  "generateFAQs (JString ''42 widgets require careful handling today.'') = Inr
     [\<lparr>question = ''What is widgets?'', answer = ''42 widgets require careful handling today.''\<rparr>,
      \<lparr>question = ''What is require?'', answer = ''42 widgets require careful handling today.''\<rparr>,
      \<lparr>question = ''What is careful?'', answer = ''42 widgets require careful handling today.''\<rparr>,
      \<lparr>question = ''What are the requirements for widgets?'',
        answer = ''42 widgets require careful handling today.''\<rparr>] \<and>
   is_terminal (last ''42 widgets require careful handling today.'') \<and>
   \<not> is_lower (hd ''42 widgets require careful handling today.'')"
  using answers_punctuated [OF example_digits] example_digits
  by simp

subsection \<open>Keywords\<close>

lemma count_words_snoc: "count_words (ws @ [w]) = count_word (count_words ws) w"
  by (simp add: count_words_def)

lemma keys_assign:
  "map fst (assign k v ps) = (if k \<in> fst ` set ps then map fst ps else map fst ps @ [k])"
  by (induction ps) auto

lemma set_assign:
  "distinct (map fst ps) \<Longrightarrow> set (assign k v ps) = insert (k, v) {p \<in> set ps. fst p \<noteq> k}"
  by (induction ps) (auto simp: image_iff)

text \<open>The keys of the word-count object: the distinct tokens, in first-seen order.\<close>

lemma count_words_keys:
  "set (map fst (count_words ws)) = set ws \<and>
   distinct (map fst (count_words ws)) \<and>
   sorted_wrt (\<lambda>a b. a \<in> set (takeWhile (\<lambda>w. w \<noteq> b) ws)) (map fst (count_words ws))"
proof (induction ws rule: rev_induct)
  case Nil
  show ?case by (simp add: count_words_def)
next
  case (snoc w ws)
  let ?keys = "map fst (count_words ws)"
  from snoc have keys: "set ?keys = set ws" and dist: "distinct ?keys"
    and ord: "sorted_wrt (\<lambda>a b. a \<in> set (takeWhile (\<lambda>w. w \<noteq> b) ws)) ?keys"
    by simp_all
  have new: "map fst (count_words (ws @ [w])) = (if w \<in> set ws then ?keys else ?keys @ [w])"
    using keys by (simp add: count_words_snoc count_word_def keys_assign)
  have grow: "a \<in> set (takeWhile (\<lambda>u. u \<noteq> b) (ws @ [w]))"
    if "a \<in> set (takeWhile (\<lambda>u. u \<noteq> b) ws)" for a b
    using that by (auto simp: takeWhile_append dest: set_takeWhileD)
  have ord': "sorted_wrt (\<lambda>a b. a \<in> set (takeWhile (\<lambda>u. u \<noteq> b) (ws @ [w]))) ?keys"
    using ord by (rule sorted_wrt_mono_rel [rotated]) (rule grow)
  show ?case
  proof (cases "w \<in> set ws")
    case True
    with new keys dist ord' show ?thesis
      by auto
  next
    case False
    then have "takeWhile (\<lambda>u. u \<noteq> w) (ws @ [w]) = ws"
      by (simp add: takeWhile_append)
    with False new keys dist ord' show ?thesis
      by (auto simp: sorted_wrt_append)
  qed
qed

text \<open>The values, when no token is \<open>constructor\<close>: the frequencies.\<close>

lemma count_words_values:
  assumes "''constructor'' \<notin> set ws"
  shows "\<forall>e \<in> set (count_words ws). snd e = Count (count_list ws (fst e))"
  using assms
proof (induction ws rule: rev_induct)
  case Nil
  show ?case by (simp add: count_words_def)
next
  case (snoc w ws)
  let ?obj = "count_words ws"
  from snoc have IH: "\<forall>e \<in> set ?obj. snd e = Count (count_list ws (fst e))"
    and w: "w \<noteq> ''constructor''"
    by auto
  have dist: "distinct (map fst ?obj)" and keys: "fst ` set ?obj = set ws"
    using count_words_keys [of ws] by simp_all
  have own: "next_count (map_of ?obj w) w = Count (count_list ws w + 1)"
  proof (cases "map_of ?obj w")
    case None
    then have "w \<notin> set ws"
      using keys by (simp add: map_of_eq_None_iff)
    then have "count_list ws w = 0"
      by (simp add: count_list_0_iff)
    with None w show ?thesis
      by (simp add: next_count_def inherited_def)
  next
    case (Some v)
    then have "(w, v) \<in> set ?obj"
      by (rule map_of_SomeD)
    with IH have "v = Count (count_list ws w)"
      by fastforce
    with Some show ?thesis
      by (simp add: next_count_def)
  qed
  show ?case
    using IH by (auto simp: count_words_snoc count_word_def set_assign [OF dist] own)
qed

text \<open>\<open>Object.entries\<close> permutes the properties into the key order.\<close>

lemma object_entries_set: "set (object_entries obj) = set obj"
  by (auto simp: object_entries_def)

lemma object_entries_length: "length (object_entries obj) = length obj"
  by (simp add: object_entries_def sum_length_filter_compl)

lemma object_entries_distinct:
  assumes "distinct (map fst obj)"
  shows "distinct (map fst (object_entries obj))"
proof -
  have "distinct (map fst (sort_key (\<lambda>e. numeric_value (fst e))
                     (filter (\<lambda>e. is_array_index (fst e)) obj)))"
    using assms by (simp add: distinct_map inj_on_def)
  moreover have "distinct (map fst (filter (\<lambda>e. \<not> is_array_index (fst e)) obj))"
    using assms by (rule distinct_map_filter)
  ultimately show ?thesis
    by (auto simp: object_entries_def)
qed

lemma object_entries_order:
  assumes "sorted_wrt (\<lambda>a b. fst a \<in> set (takeWhile (\<lambda>w. w \<noteq> fst b) ws)) obj"
  shows "sorted_wrt (\<lambda>a b. key_precedes ws (fst a) (fst b)) (object_entries obj)"
proof -
  let ?idx = "filter (\<lambda>e. is_array_index (fst e)) obj"
  let ?str = "filter (\<lambda>e. \<not> is_array_index (fst e)) obj"
  have "sorted (map (\<lambda>e. numeric_value (fst e)) (sort_key (\<lambda>e. numeric_value (fst e)) ?idx))"
    by (rule sorted_sort_key)
  then have "sorted_wrt (\<lambda>a b. numeric_value (fst a) \<le> numeric_value (fst b))
               (sort_key (\<lambda>e. numeric_value (fst e)) ?idx)"
    by (simp add: sorted_map)
  then have one: "sorted_wrt (\<lambda>a b. key_precedes ws (fst a) (fst b))
               (sort_key (\<lambda>e. numeric_value (fst e)) ?idx)"
    by (rule sorted_wrt_mono_rel [rotated]) (auto simp: key_precedes_def)
  from assms have "sorted_wrt (\<lambda>a b. fst a \<in> set (takeWhile (\<lambda>w. w \<noteq> fst b) ws)) ?str"
    by (rule sorted_wrt_filter)
  then have two: "sorted_wrt (\<lambda>a b. key_precedes ws (fst a) (fst b)) ?str"
    by (rule sorted_wrt_mono_rel [rotated]) (auto simp: key_precedes_def)
  from one two show ?thesis
    by (auto simp: object_entries_def sorted_wrt_append key_precedes_def)
qed

text \<open>The sort permutes the entries.\<close>

lemma insert_entry_set: "set (insert_entry x ys) = insert x (set ys)"
  by (induction ys) auto

lemma insert_entry_length: "length (insert_entry x ys) = Suc (length ys)"
  by (induction ys) auto

lemma insert_entry_distinct:
  "distinct (map fst (insert_entry x ys)) = (fst x \<notin> fst ` set ys \<and> distinct (map fst ys))"
  by (induction ys) (auto simp: insert_entry_set)

lemma sort_entries_set: "set (sort_entries es) = set es"
  by (induction es) (simp_all add: sort_entries_def insert_entry_set)

lemma sort_entries_length: "length (sort_entries es) = length es"
  by (induction es) (simp_all add: sort_entries_def insert_entry_length)

lemma sort_entries_distinct: "distinct (map fst (sort_entries es)) = distinct (map fst es)"
  by (induction es) (simp_all add: sort_entries_def insert_entry_distinct sort_entries_set [unfolded sort_entries_def])

text \<open>
  With numeric values the sort is by descending count, and entries of equal count
  keep the order they had: \<open>pre\<close> is any relation that held between each entry and
  the entries after it.
\<close>

lemma insert_entry_ranked:
  assumes vals: "\<forall>e \<in> set (x # ys). snd e = Count (c (fst e))"
    and sorted: "sorted_wrt (\<lambda>a b. c (fst b) < c (fst a) \<or> (c (fst a) = c (fst b) \<and> pre a b)) ys"
    and first: "\<forall>y \<in> set ys. pre x y"
  shows "sorted_wrt (\<lambda>a b. c (fst b) < c (fst a) \<or> (c (fst a) = c (fst b) \<and> pre a b))
           (insert_entry x ys)"
  using assms
proof (induction ys)
  case Nil
  show ?case by simp
next
  case (Cons y ys)
  from Cons.prems(1) have cmp: "compare_entries x y \<le> 0 \<longleftrightarrow> c (fst y) \<le> c (fst x)"
    by (simp add: compare_entries_def)
  show ?case
  proof (cases "c (fst y) \<le> c (fst x)")
    case True
    from Cons.prems(2) have "\<forall>z \<in> set ys. c (fst z) \<le> c (fst y)"
      by auto
    with True Cons.prems(3) have "\<forall>z \<in> set (y # ys). c (fst z) < c (fst x) \<or>
        (c (fst x) = c (fst z) \<and> pre x z)"
      by fastforce
    with True cmp Cons.prems(2) show ?thesis
      by simp
  next
    case False
    from Cons.prems have "sorted_wrt (\<lambda>a b. c (fst b) < c (fst a) \<or> (c (fst a) = c (fst b) \<and> pre a b))
           (insert_entry x ys)"
      by (intro Cons.IH) auto
    with False cmp Cons.prems(2) show ?thesis
      by (auto simp: insert_entry_set)
  qed
qed

lemma sort_entries_ranked:
  assumes "\<forall>e \<in> set es. snd e = Count (c (fst e))"
    and "sorted_wrt pre es"
  shows "sorted_wrt (\<lambda>a b. c (fst b) < c (fst a) \<or> (c (fst a) = c (fst b) \<and> pre a b))
           (sort_entries es)"
  using assms
proof (induction es)
  case Nil
  show ?case by (simp add: sort_entries_def)
next
  case (Cons x es)
  then have "sorted_wrt (\<lambda>a b. c (fst b) < c (fst a) \<or> (c (fst a) = c (fst b) \<and> pre a b))
               (sort_entries es)"
    by simp
  moreover from Cons.prems have "\<forall>e \<in> set (x # sort_entries es). snd e = Count (c (fst e))"
    and "\<forall>y \<in> set (sort_entries es). pre x y"
    by (simp_all add: sort_entries_set)
  ultimately have "sorted_wrt (\<lambda>a b. c (fst b) < c (fst a) \<or> (c (fst a) = c (fst b) \<and> pre a b))
               (insert_entry x (sort_entries es))"
    by (intro insert_entry_ranked)
  then show ?case
    by (simp add: sort_entries_def)
qed

text \<open>The sorted entries of a text.\<close>

lemma ranked_entries:
  assumes "''constructor'' \<notin> set (keyword_tokens text)"
  shows "sorted_wrt (\<lambda>a b. ranks_before (keyword_tokens text) (fst a) (fst b))
           (sort_entries (object_entries (count_words (keyword_tokens text))))"
proof -
  let ?ws = "keyword_tokens text"
  let ?obj = "count_words ?ws"
  have "sorted_wrt (\<lambda>a b. fst a \<in> set (takeWhile (\<lambda>w. w \<noteq> fst b) ?ws)) ?obj"
    using count_words_keys [of ?ws] by (simp add: sorted_wrt_map)
  then have "sorted_wrt (\<lambda>a b. key_precedes ?ws (fst a) (fst b)) (object_entries ?obj)"
    by (rule object_entries_order)
  moreover have "\<forall>e \<in> set (object_entries ?obj). snd e = Count (count_list ?ws (fst e))"
    using count_words_values [OF assms] by (simp add: object_entries_set)
  ultimately have "sorted_wrt (\<lambda>a b. count_list ?ws (fst b) < count_list ?ws (fst a) \<or>
        (count_list ?ws (fst a) = count_list ?ws (fst b) \<and> key_precedes ?ws (fst a) (fst b)))
      (sort_entries (object_entries ?obj))"
    by (intro sort_entries_ranked)
  then show ?thesis
    by (simp add: ranks_before_def)
qed

lemma sorted_keys:
  "set (map fst (sort_entries (object_entries (count_words ws)))) = set ws \<and>
   distinct (map fst (sort_entries (object_entries (count_words ws)))) \<and>
   length (sort_entries (object_entries (count_words ws))) = card (set ws)"
proof -
  have keys: "set (map fst (count_words ws)) = set ws" and dist: "distinct (map fst (count_words ws))"
    using count_words_keys [of ws] by simp_all
  from dist have "card (set (map fst (count_words ws))) = length (count_words ws)"
    using distinct_card by fastforce
  with keys dist show ?thesis
    by (simp add: sort_entries_set sort_entries_distinct sort_entries_length
                  object_entries_set object_entries_distinct object_entries_length)
qed

text \<open>
  Claim C5, as the code has it. Keyword extraction returns the distinct tokens, at most
  15 of them, each longer than 3 characters and no stop word. When no token is
  \<open>constructor\<close> they are ranked: by descending frequency, and among tokens of equal
  frequency by the key order of the word-count object, which is first-seen order for
  tokens that are no array indices, with the array-index tokens before them in
  ascending numeric order. A token that is left out is no more frequent than any
  token returned.
\<close>

theorem extractKeywords_ranked:
  "length (extractKeywords text) = min 15 (card (set (keyword_tokens text))) \<and>
   distinct (extractKeywords text) \<and>
   (\<forall>k \<in> set (extractKeywords text).
      k \<in> set (keyword_tokens text) \<and> length k > 3 \<and> k \<notin> stopWords) \<and>
   (''constructor'' \<notin> set (keyword_tokens text) \<longrightarrow>
      sorted_wrt (ranks_before (keyword_tokens text)) (extractKeywords text) \<and>
      (\<forall>k \<in> set (extractKeywords text).
         \<forall>w \<in> set (keyword_tokens text) - set (extractKeywords text).
           count_list (keyword_tokens text) w \<le> count_list (keyword_tokens text) k))"
proof (intro conjI impI ballI)
  let ?ws = "keyword_tokens text"
  let ?s = "sort_entries (object_entries (count_words ?ws))"
  have ks: "extractKeywords text = map fst (take 15 ?s)"
    by (simp add: extractKeywords_def)
  have keys: "set (map fst ?s) = set ?ws" and dist: "distinct (map fst ?s)"
    and len: "length ?s = card (set ?ws)"
    using sorted_keys [of ?ws] by simp_all
  show "length (extractKeywords text) = min 15 (card (set ?ws))"
    by (simp add: ks len min.commute)
  from dist show "distinct (extractKeywords text)"
    by (simp add: ks take_map [symmetric] distinct_take del: take_map)
  {
    fix k assume "k \<in> set (extractKeywords text)"
    then have "k \<in> set (map fst ?s)"
      unfolding ks by (auto dest: in_set_takeD)
    with keys show "k \<in> set ?ws"
      by simp
    then show "length k > 3" and "k \<notin> stopWords"
      by (simp_all add: keyword_tokens_def)
  }
  assume no: "''constructor'' \<notin> set ?ws"
  then have ranked: "sorted_wrt (\<lambda>a b. ranks_before ?ws (fst a) (fst b)) ?s"
    by (rule ranked_entries)
  then have "sorted_wrt (\<lambda>a b. ranks_before ?ws (fst a) (fst b)) (take 15 ?s)"
    by (rule sorted_wrt_take)
  then show "sorted_wrt (ranks_before ?ws) (extractKeywords text)"
    by (simp add: ks sorted_wrt_map)
  fix k w assume k: "k \<in> set (extractKeywords text)"
    and w: "w \<in> set ?ws - set (extractKeywords text)"
  from ranked have "sorted_wrt (\<lambda>a b. ranks_before ?ws (fst a) (fst b)) (take 15 ?s @ drop 15 ?s)"
    by simp
  then have cross: "\<forall>a \<in> set (take 15 ?s). \<forall>b \<in> set (drop 15 ?s). ranks_before ?ws (fst a) (fst b)"
    unfolding sorted_wrt_append by simp
  from k obtain a where a: "a \<in> set (take 15 ?s)" and "fst a = k"
    unfolding ks by auto
  from w keys obtain b where b: "b \<in> set ?s" and bw: "fst b = w"
    by force
  have "set ?s = set (take 15 ?s) \<union> set (drop 15 ?s)"
    by (metis append_take_drop_id set_append)
  moreover from w bw have "b \<notin> set (take 15 ?s)"
    unfolding ks by auto
  ultimately have "b \<in> set (drop 15 ?s)"
    using b by blast
  with cross a \<open>fst a = k\<close> bw have "ranks_before ?ws k w"
    by blast
  then show "count_list ?ws w \<le> count_list ?ws k"
    by (auto simp: ranks_before_def)
qed

text \<open>
  Claim C5 as stated fails: \<open>2024\<close> is seen after \<open>sales\<close> and \<open>rose\<close>, is as
  frequent as they are, and is returned before them.
\<close>

theorem keyword_tie_order_counterexample:
  "keyword_tokens ''sales rose during 2024'' = [''sales'', ''rose'', ''2024''] \<and>
   extractKeywords ''sales rose during 2024'' = [''2024'', ''sales'', ''rose'']"
  by code_simp

theorem extractKeywords_ranked_witness:
  "keyword_tokens ''Sales rose; sales of 1999 and 2024 fell.'' =
     [''sales'', ''rose'', ''sales'', ''1999'', ''2024'', ''fell''] \<and>
   extractKeywords ''Sales rose; sales of 1999 and 2024 fell.'' =
     [''sales'', ''1999'', ''2024'', ''rose'', ''fell''] \<and>
   sorted_wrt (ranks_before [''sales'', ''rose'', ''sales'', ''1999'', ''2024'', ''fell''])
     [''sales'', ''1999'', ''2024'', ''rose'', ''fell'']"
proof -
  have t: "keyword_tokens ''Sales rose; sales of 1999 and 2024 fell.'' =
     [''sales'', ''rose'', ''sales'', ''1999'', ''2024'', ''fell'']"
    by code_simp
  have k: "extractKeywords ''Sales rose; sales of 1999 and 2024 fell.'' =
     [''sales'', ''1999'', ''2024'', ''rose'', ''fell'']"
    by code_simp
  have "''constructor'' \<notin> set (keyword_tokens ''Sales rose; sales of 1999 and 2024 fell.'')"
    unfolding t by simp
  with extractKeywords_ranked [of "''Sales rose; sales of 1999 and 2024 fell.''"] t k
  show ?thesis
    by simp
qed

subsection \<open>Newlines\<close>






















subsection \<open>Topics\<close>

lemma phrase_match_upper:
  assumes "phrase_match prev s = Some n"
  shows "s \<noteq> [] \<and> is_upper (hd s) \<and> 0 < n"
proof -
  from assms have "n \<in> set (concat (map (\<lambda>n. map (\<lambda>m. n + m) (tail_lengths (drop n s)))
                              (word_lengths s)))"
    by (auto simp: phrase_match_def split: if_splits dest!: find_Some_set)
  then obtain k where k: "k \<in> set (word_lengths s)" and "k \<le> n"
    by auto
  then have "s \<noteq> [] \<and> is_upper (hd s) \<and> 0 < k"
    by (cases s) (auto simp: word_lengths_def split: if_splits)
  with \<open>k \<le> n\<close> show ?thesis
    by simp
qed

lemma scan_phrases_upper:
  "m \<in> set (scan_phrases skip prev s) \<Longrightarrow> m \<noteq> [] \<and> is_upper (hd m)"
proof (induction s arbitrary: skip prev)
  case Nil
  then show ?case by simp
next
  case (Cons c cs)
  show ?case
  proof (cases "0 < skip")
    case True
    with Cons show ?thesis
      by simp
  next
    case False
    show ?thesis
    proof (cases "phrase_match prev (c # cs)")
      case None
      with False Cons show ?thesis
        by simp
    next
      case (Some n)
      from phrase_match_upper [OF Some] have "is_upper c" and "0 < n"
        by simp_all
      then have "take n (c # cs) \<noteq> [] \<and> is_upper (hd (take n (c # cs)))"
        by (cases n) simp_all
      with False Some Cons show ?thesis
        by auto
    qed
  qed
qed

lemma toLowerChar_not_upper: "is_upper c \<Longrightarrow> \<not> is_upper (toLowerChar c)"
  by (auto simp: is_upper_def toLowerChar_def)

text \<open>
  The test \<open>topics.includes(match.toLowerCase())\<close> never finds anything: every topic
  pushed so far begins with an upper-case letter, and no lower-cased match does.
\<close>

lemma push_match_keeps_all:
  assumes "\<forall>m \<in> set topics \<union> set ms. m \<noteq> [] \<and> is_upper (hd m)"
  shows "foldl push_match topics ms = topics @ filter (\<lambda>m. length m > 3) ms"
  using assms
proof (induction ms arbitrary: topics)
  case Nil
  show ?case by simp
next
  case (Cons m ms)
  from Cons.prems have m: "m \<noteq> []" "is_upper (hd m)"
    by simp_all
  then have "hd (toLowerCase m) = toLowerChar (hd m)"
    by (cases m) (simp_all add: toLowerCase_def)
  with m have "\<not> is_upper (hd (toLowerCase m))"
    by (simp add: toLowerChar_not_upper)
  with Cons.prems have "toLowerCase m \<notin> set topics"
    by auto
  then have step: "push_match topics m = (if length m > 3 then topics @ [m] else topics)"
    by (simp add: push_match_def)
  from Cons.prems have "\<forall>x \<in> set (push_match topics m) \<union> set ms. x \<noteq> [] \<and> is_upper (hd x)"
    unfolding step by auto
  from Cons.IH [OF this] show ?case
    by (simp add: step)
qed

lemma capitalized_topics_all_kept:
  "foldl push_match [] (capitalized_matches text) =
     filter (\<lambda>m. length m > 3) (capitalized_matches text)"
  using push_match_keeps_all [of "[]" "capitalized_matches text"] scan_phrases_upper
  by (fastforce simp: capitalized_matches_def)

text \<open>
  Claim C6 fails on the code: a phrase matched twice is a topic twice. The claim says
  that the capitalized-phrase topics hold no two entries equal ignoring case.
\<close>

theorem repeated_phrase_topics:
  "capitalized_matches ''Widgets are great. Widgets help.'' = [''Widgets'', ''Widgets''] \<and>
   identifyTopics ''Widgets are great. Widgets help.''
     (extractKeywords ''Widgets are great. Widgets help.'') =
     [''Widgets'', ''Widgets'', ''great'', ''help'']"
  by code_simp

end
